theory Spec2Isabelle
  imports Complex_Main
begin

section \<open>GMS-5 VISSR navigation: numbers, errors and sequences\<close>

text \<open>
  The source is \<^verbatim>\<open>satpy/readers/gms5_vissr_navigation.py\<close>. Its functions are modelled with
  the semantics of the Python text: indexing a sequence out of range raises
  \<^verbatim>\<open>IndexError\<close>, dividing a float by zero raises \<^verbatim>\<open>ZeroDivisionError\<close>, and
  \<^verbatim>\<open>_find_enclosing_index\<close> raises a plain \<^verbatim>\<open>Exception\<close> when no interval encloses
  the query. A function that can raise returns \<open>error + 'a\<close>, with \<open>Inl\<close> the exception.
  A definition has the name of the source function without its leading underscore;
  \<^verbatim>\<open>_interpolate_nearest\<close> is \<open>interpolate_nearest_raw\<close>.
\<close>

datatype error = IndexError | ZeroDivisionError | NotEnclosed

definition ebind :: "error + 'a \<Rightarrow> ('a \<Rightarrow> error + 'b) \<Rightarrow> error + 'b" where
  "ebind m f = (case m of Inl e \<Rightarrow> Inl e | Inr v \<Rightarrow> f v)"

text \<open>
  A float that can be not-a-number is a value of \<open>fl\<close>: an exact real, the negative zero
  of IEEE 754, or NaN. Rounding and overflow are not modelled: arithmetic on numbers is
  exact, with the IEEE rules for the sign of a zero result and for NaN. \<open>Num 0\<close> is the
  positive zero. Prediction tables, times and scan parameters hold finite numbers and are
  plain reals.
\<close>

datatype fl = Num real | NegZero | NaN

fun fl_val :: "fl \<Rightarrow> real option" where
  "fl_val (Num r) = Some r"
| "fl_val NegZero = Some 0"
| "fl_val NaN = None"

fun signbit :: "fl \<Rightarrow> bool" where
  "signbit (Num r) = (r < 0)"
| "signbit NegZero = True"
| "signbit NaN = False"

text \<open>The value of a float that is a number; 0 stands in for NaN, which has no value.\<close>

fun num_of :: "fl \<Rightarrow> real" where
  "num_of (Num r) = r"
| "num_of NegZero = 0"
| "num_of NaN = 0"

text \<open>\<open>mk s r\<close> is the float of value \<open>r\<close>; when \<open>r\<close> is zero, \<open>s\<close> says whether it is the negative zero.\<close>

definition mk :: "bool \<Rightarrow> real \<Rightarrow> fl" where
  "mk s r = (if r = 0 \<and> s then NegZero else Num r)"

definition fadd :: "fl \<Rightarrow> fl \<Rightarrow> fl" where
  "fadd a b = (case (fl_val a, fl_val b) of
     (Some x, Some y) \<Rightarrow> mk (signbit a \<and> signbit b) (x + y)
   | _ \<Rightarrow> NaN)"

fun fneg :: "fl \<Rightarrow> fl" where
  "fneg (Num r) = (if r = 0 then NegZero else Num (- r))"
| "fneg NegZero = Num 0"
| "fneg NaN = NaN"

definition fsub :: "fl \<Rightarrow> fl \<Rightarrow> fl" where
  "fsub a b = fadd a (fneg b)"

definition fmul :: "fl \<Rightarrow> fl \<Rightarrow> fl" where
  "fmul a b = (case (fl_val a, fl_val b) of
     (Some x, Some y) \<Rightarrow> mk (signbit a \<noteq> signbit b) (x * y)
   | _ \<Rightarrow> NaN)"

text \<open>\<^verbatim>\<open>v ** 2\<close>.\<close>

definition fpow2 :: "fl \<Rightarrow> fl" where
  "fpow2 a = fmul a a"

text \<open>\<^verbatim>\<open>a / b\<close> on floats: a zero divisor raises, whatever the dividend.\<close>

definition fdiv :: "fl \<Rightarrow> fl \<Rightarrow> error + fl" where
  "fdiv a b = (if fl_val b = Some 0 then Inl ZeroDivisionError
     else (case (fl_val a, fl_val b) of
        (Some x, Some y) \<Rightarrow> Inr (mk (signbit a \<noteq> signbit b) (x / y))
      | _ \<Rightarrow> Inr NaN))"

text \<open>
  \<^verbatim>\<open>a % b\<close> on floats: a zero divisor raises; the result has the sign of the divisor,
  also when it is zero, so for a positive divisor it is the nonnegative remainder.
\<close>

definition fmod :: "fl \<Rightarrow> fl \<Rightarrow> error + fl" where
  "fmod a b = (if fl_val b = Some 0 then Inl ZeroDivisionError
     else (case (fl_val a, fl_val b) of
        (Some x, Some y) \<Rightarrow> Inr (mk (signbit b) (x - y * of_int \<lfloor>x / y\<rfloor>))
      | _ \<Rightarrow> Inr NaN))"

text \<open>\<^verbatim>\<open>np.sqrt\<close>: NaN for a negative number, no exception.\<close>

fun fsqrt :: "fl \<Rightarrow> fl" where
  "fsqrt (Num r) = (if r < 0 then NaN else Num (sqrt r))"
| "fsqrt NegZero = NegZero"
| "fsqrt NaN = NaN"

text \<open>\<^verbatim>\<open>a < b\<close>: false when either side is NaN.\<close>

definition fl_lt :: "fl \<Rightarrow> fl \<Rightarrow> bool" where
  "fl_lt a b = (case (fl_val a, fl_val b) of (Some x, Some y) \<Rightarrow> x < y | _ \<Rightarrow> False)"

text \<open>The builtin \<^verbatim>\<open>min(a, b)\<close>: the second argument only when it is smaller than the first.\<close>

definition py_min :: "fl \<Rightarrow> fl \<Rightarrow> fl" where
  "py_min a b = (if fl_lt b a then b else a)"

text \<open>\<^verbatim>\<open>a / b\<close> on finite numbers.\<close>

definition py_div :: "real \<Rightarrow> real \<Rightarrow> error + real" where
  "py_div a b = (if b = 0 then Inl ZeroDivisionError else Inr (a / b))"

text \<open>\<^verbatim>\<open>xs[i]\<close> for an index that is not negative.\<close>

definition getitem :: "'a list \<Rightarrow> nat \<Rightarrow> error + 'a" where
  "getitem xs i = (if i < length xs then Inr (xs ! i) else Inl IndexError)"

section \<open>Interpolators\<close>

text \<open>
  \<^verbatim>\<open>_find_enclosing_index\<close>: the loop \<^verbatim>\<open>for i in range(len(x_sample) - 1)\<close> returns the
  first index whose interval encloses \<open>x\<close> and raises after the last one. The indices
  the loop visits are in range for \<open>x_sample\<close>, and so is their successor.
\<close>

fun find_enclosing_loop :: "nat list \<Rightarrow> real \<Rightarrow> real list \<Rightarrow> error + nat" where
  "find_enclosing_loop [] x x_sample = Inl NotEnclosed"
| "find_enclosing_loop (i # rest) x x_sample =
     (if x_sample ! i \<le> x \<and> x < x_sample ! (i + 1) then Inr i
      else find_enclosing_loop rest x x_sample)"

definition find_enclosing_index :: "real \<Rightarrow> real list \<Rightarrow> error + nat" where
  "find_enclosing_index x x_sample =
     find_enclosing_loop [0 ..< length x_sample - 1] x x_sample"

text \<open>\<^verbatim>\<open>_interpolate\<close>, statement by statement.\<close>

definition interpolate :: "real \<Rightarrow> real list \<Rightarrow> real list \<Rightarrow> error + real" where
  "interpolate x x_sample y_sample =
     ebind (find_enclosing_index x x_sample) (\<lambda>i.
     ebind (getitem y_sample i) (\<lambda>offset.
     ebind (getitem x_sample (i + 1)) (\<lambda>x1.
     ebind (getitem x_sample i) (\<lambda>x0.
     ebind (getitem y_sample (i + 1)) (\<lambda>y1.
     ebind (getitem y_sample i) (\<lambda>y0.
     ebind (py_div (y1 - y0) (x1 - x0)) (\<lambda>slope.
     ebind (getitem x_sample i) (\<lambda>x0'.
     Inr (offset + slope * (x - x0'))))))))))"

text \<open>\<^verbatim>\<open>interpolate_continuous\<close>: \<^verbatim>\<open>except Exception\<close> turns every exception into NaN.\<close>

definition interpolate_continuous :: "real \<Rightarrow> real list \<Rightarrow> real list \<Rightarrow> fl" where
  "interpolate_continuous x x_sample y_sample =
     (case interpolate x x_sample y_sample of Inl e \<Rightarrow> NaN | Inr v \<Rightarrow> Num v)"

text \<open>\<^verbatim>\<open>_wrap_2pi\<close>: \<^verbatim>\<open>(values + np.pi) % (2 * np.pi) - np.pi\<close>.\<close>

definition wrap_2pi :: "fl \<Rightarrow> error + fl" where
  "wrap_2pi values =
     ebind (fmod (fadd values (Num pi)) (fmul (Num 2) (Num pi))) (\<lambda>r.
     Inr (fsub r (Num pi)))"

definition interpolate_angles :: "real \<Rightarrow> real list \<Rightarrow> real list \<Rightarrow> error + fl" where
  "interpolate_angles x x_sample y_sample =
     wrap_2pi (interpolate_continuous x x_sample y_sample)"

text \<open>
  \<^verbatim>\<open>_interpolate_nearest\<close> and \<^verbatim>\<open>interpolate_nearest\<close>. A sample is a two-dimensional
  array (the nutation and precession matrix). The handler evaluates
  \<^verbatim>\<open>np.nan * np.ones_like(y_sample[0])\<close>, and \<^verbatim>\<open>y_sample[0]\<close> is itself an indexing.
\<close>

definition interpolate_nearest_raw ::
  "real \<Rightarrow> real list \<Rightarrow> real list list list \<Rightarrow> error + real list list" where
  "interpolate_nearest_raw x x_sample y_sample =
     ebind (find_enclosing_index x x_sample) (\<lambda>i. getitem y_sample i)"

definition ones_like :: "real list list \<Rightarrow> fl list list" where
  "ones_like m = map (map (\<lambda>v. Num 1)) m"

definition scale :: "fl \<Rightarrow> fl list list \<Rightarrow> fl list list" where
  "scale c m = map (map (fmul c)) m"

definition interpolate_nearest ::
  "real \<Rightarrow> real list \<Rightarrow> real list list list \<Rightarrow> error + fl list list" where
  "interpolate_nearest x x_sample y_sample =
     (case interpolate_nearest_raw x x_sample y_sample of
        Inr m \<Rightarrow> Inr (map (map Num) m)
      | Inl e \<Rightarrow> ebind (getitem y_sample 0) (\<lambda>m0. Inr (scale NaN (ones_like m0))))"

section \<open>Observation time\<close>




section \<open>Intersection with the earth\<close>

type_synonym vec3 = "fl \<times> fl \<times> fl"

text \<open>\<^verbatim>\<open>distance * view_vector\<close> and \<^verbatim>\<open>sat_pos + ...\<close> on arrays of three floats.\<close>

definition scalar_times :: "fl \<Rightarrow> vec3 \<Rightarrow> vec3" where
  "scalar_times d v = (case v of (vx, vy, vz) \<Rightarrow> (fmul d vx, fmul d vy, fmul d vz))"

definition vec_plus :: "vec3 \<Rightarrow> vec3 \<Rightarrow> vec3" where
  "vec_plus p q =
     (case p of (px, py, pz) \<Rightarrow> case q of (qx, qy, qz) \<Rightarrow> (fadd px qx, fadd py qy, fadd pz qz))"

text \<open>\<^verbatim>\<open>_get_distances_to_intersections\<close>; the ellipsoid is (equatorial radius, flattening).\<close>

definition get_distances_to_intersections :: "vec3 \<Rightarrow> vec3 \<Rightarrow> fl \<times> fl \<Rightarrow> error + fl \<times> fl" where
  "get_distances_to_intersections view_vector sat_pos ellipsoid =
     (case ellipsoid of (equatorial_radius, flattening) \<Rightarrow>
      case view_vector of (ux, uy, uz) \<Rightarrow>
      case sat_pos of (x, y, z) \<Rightarrow>
        let flat2 = fpow2 (fsub (Num 1) flattening);
            a = fadd (fmul flat2 (fadd (fpow2 ux) (fpow2 uy))) (fpow2 uz);
            b = fadd (fmul flat2 (fadd (fmul x ux) (fmul y uy))) (fmul z uz);
            c = fadd (fmul flat2 (fsub (fadd (fpow2 x) (fpow2 y)) (fpow2 equatorial_radius)))
                     (fpow2 z);
            tmp = fsqrt (fsub (fpow2 b) (fmul a c))
        in ebind (fdiv (fadd (fneg b) tmp) a) (\<lambda>dist_1.
           ebind (fdiv (fsub (fneg b) tmp) a) (\<lambda>dist_2.
           Inr (dist_1, dist_2))))"

definition get_distance_to_intersection :: "vec3 \<Rightarrow> vec3 \<Rightarrow> fl \<times> fl \<Rightarrow> error + fl" where
  "get_distance_to_intersection view_vector sat_pos ellipsoid =
     ebind (get_distances_to_intersections view_vector sat_pos ellipsoid) (\<lambda>(d1, d2).
     Inr (py_min d1 d2))"

definition intersect_with_earth :: "vec3 \<Rightarrow> vec3 \<Rightarrow> fl \<times> fl \<Rightarrow> error + vec3" where
  "intersect_with_earth view_vector sat_pos ellipsoid =
     ebind (get_distance_to_intersection view_vector sat_pos ellipsoid) (\<lambda>distance.
     Inr (vec_plus sat_pos (scalar_times distance view_vector)))"

section \<open>Geodetic coordinates\<close>

text \<open>
  \<^verbatim>\<open>np.arctan2\<close> with its documented special values: a zero \<open>y\<close> gives a zero of the
  sign of \<open>y\<close> when \<open>x\<close> is positive or the positive zero, and \<open>pi\<close> with the sign of
  \<open>y\<close> when \<open>x\<close> is negative or the negative zero; a zero \<open>x\<close> gives a right angle.
\<close>

definition arctan2 :: "fl \<Rightarrow> fl \<Rightarrow> fl" where
  "arctan2 y x = (case (fl_val y, fl_val x) of
     (Some yv, Some xv) \<Rightarrow>
       if yv = 0 then
         (if signbit x then (if signbit y then Num (- pi) else Num pi)
          else (if signbit y then NegZero else Num 0))
       else if xv = 0 then (if 0 < yv then Num (pi / 2) else Num (- (pi / 2)))
       else if 0 < xv then Num (arctan (yv / xv))
       else if 0 < yv then Num (arctan (yv / xv) + pi)
       else Num (arctan (yv / xv) - pi)
   | _ \<Rightarrow> NaN)"

text \<open>\<^verbatim>\<open>np.rad2deg\<close>.\<close>

definition rad2deg :: "fl \<Rightarrow> fl" where
  "rad2deg v = fmul v (Num (180 / pi))"

definition transform_earth_fixed_to_geodetic_coords :: "vec3 \<Rightarrow> fl \<Rightarrow> fl \<times> fl" where
  "transform_earth_fixed_to_geodetic_coords point earth_flattening =
     (case point of (x, y, z) \<Rightarrow>
        let f = earth_flattening;
            lon = arctan2 y x;
            lat = arctan2 z (fmul (fpow2 (fsub (Num 1) f)) (fsqrt (fadd (fpow2 x) (fpow2 y))))
        in (rad2deg lon, rad2deg lat))"

text \<open>
  The last two steps of \<^verbatim>\<open>get_lon_lat\<close>, from the view vector in earth-fixed coordinates
  on: the intersection with the earth, then the geodetic coordinates of the intersection,
  with the flattening of the same projection parameters.
\<close>

definition get_lon_lat_of_view_vector :: "vec3 \<Rightarrow> vec3 \<Rightarrow> fl \<times> fl \<Rightarrow> error + fl \<times> fl" where
  "get_lon_lat_of_view_vector view_vector_earth_fixed sat_pos ellipsoid =
     ebind (intersect_with_earth view_vector_earth_fixed sat_pos ellipsoid) (\<lambda>point_on_earth.
     Inr (transform_earth_fixed_to_geodetic_coords point_on_earth (snd ellipsoid)))"

section \<open>The formulas of the specification\<close>

text \<open>The two-argument arctangent on real numbers, with values in \<open>(-pi, pi]\<close>.\<close>

definition atan2 :: "real \<Rightarrow> real \<Rightarrow> real" where
  "atan2 y x =
     (if 0 < x then arctan (y / x)
      else if x < 0 then (if 0 \<le> y then arctan (y / x) + pi else arctan (y / x) - pi)
      else if 0 < y then pi / 2
      else if y < 0 then - (pi / 2)
      else 0)"

text \<open>Radians to degrees.\<close>

definition degrees :: "real \<Rightarrow> real" where
  "degrees r = r * 180 / pi"

text \<open>The coefficients of the quadratic \<open>a t\<^sup>2 + 2 b t + c = 0\<close>, with \<open>k = (1 - f)\<^sup>2\<close>.\<close>

definition quad_a :: "real \<Rightarrow> real \<times> real \<times> real \<Rightarrow> real" where
  "quad_a f u = (case u of (ux, uy, uz) \<Rightarrow> (1 - f)\<^sup>2 * (ux\<^sup>2 + uy\<^sup>2) + uz\<^sup>2)"

definition quad_b :: "real \<Rightarrow> real \<times> real \<times> real \<Rightarrow> real \<times> real \<times> real \<Rightarrow> real" where
  "quad_b f u p =
     (case u of (ux, uy, uz) \<Rightarrow> case p of (px, py, pz) \<Rightarrow>
        (1 - f)\<^sup>2 * (px * ux + py * uy) + pz * uz)"

definition quad_c :: "real \<Rightarrow> real \<Rightarrow> real \<times> real \<times> real \<Rightarrow> real" where
  "quad_c f r p = (case p of (px, py, pz) \<Rightarrow> (1 - f)\<^sup>2 * (px\<^sup>2 + py\<^sup>2 - r\<^sup>2) + pz\<^sup>2)"

definition discriminant ::
  "real \<Rightarrow> real \<Rightarrow> real \<times> real \<times> real \<Rightarrow> real \<times> real \<times> real \<Rightarrow> real" where
  "discriminant f r u p = (quad_b f u p)\<^sup>2 - quad_a f u * quad_c f r p"



text \<open>The values of a vector of floats, when none is NaN.\<close>

definition vec_val :: "vec3 \<Rightarrow> (real \<times> real \<times> real) option" where
  "vec_val v = (case v of (a, b, c) \<Rightarrow>
     (case (fl_val a, fl_val b, fl_val c) of
        (Some x, Some y, Some z) \<Rightarrow> Some (x, y, z)
      | _ \<Rightarrow> None))"

text \<open>An array of the shape of \<open>m\<close> filled with NaN.\<close>

definition nan_like :: "real list list \<Rightarrow> fl list list" where
  "nan_like m = map (map (\<lambda>v. NaN)) m"

text \<open>Linear interpolation between the samples \<open>i\<close> and \<open>i + 1\<close>.\<close>

definition linear_at :: "nat \<Rightarrow> real \<Rightarrow> real list \<Rightarrow> real list \<Rightarrow> real" where
  "linear_at i x x_sample y_sample =
     y_sample ! i
     + (y_sample ! (i + 1) - y_sample ! i) / (x_sample ! (i + 1) - x_sample ! i)
       * (x - x_sample ! i)"

text \<open>The remainder that is never negative, and the wrapping \<open>((v + pi) mod 2 pi) - pi\<close>.\<close>

definition euclid_mod :: "real \<Rightarrow> real \<Rightarrow> real" where
  "euclid_mod a m = a - m * of_int \<lfloor>a / m\<rfloor>"

definition wrap_to_pi :: "real \<Rightarrow> real" where
  "wrap_to_pi v = euclid_mod (v + pi) (2 * pi) - pi"

section \<open>Properties of the interpolators\<close>

lemma ebind_simps [simp]:
  "ebind (Inl e) f = Inl e"
  "ebind (Inr v) f = f v"
  by (simp_all add: ebind_def)

lemma find_enclosing_loop_Inr:
  "find_enclosing_loop js x xs = Inr i \<Longrightarrow> i \<in> set js \<and> xs ! i \<le> x \<and> x < xs ! (i + 1)"
  by (induction js) (auto split: if_splits)

lemma find_enclosing_loop_Inl:
  "find_enclosing_loop js x xs = Inl e \<Longrightarrow> e = NotEnclosed \<and> (\<forall>j\<in>set js. \<not> (xs ! j \<le> x \<and> x < xs ! (j + 1)))"
  by (induction js) (auto split: if_splits)

lemma find_enclosing_loop_none:
  "(\<forall>j\<in>set js. \<not> (xs ! j \<le> x \<and> x < xs ! (j + 1))) \<Longrightarrow> find_enclosing_loop js x xs = Inl NotEnclosed"
  by (induction js) auto

lemma find_enclosing_loop_first:
  "a \<le> i \<Longrightarrow> i < b \<Longrightarrow> xs ! i \<le> x \<Longrightarrow> x < xs ! (i + 1) \<Longrightarrow>
   (\<forall>j. a \<le> j \<and> j < i \<longrightarrow> \<not> (xs ! j \<le> x \<and> x < xs ! (j + 1))) \<Longrightarrow>
   find_enclosing_loop [a ..< b] x xs = Inr i"
proof (induction "i - a" arbitrary: a)
  case 0
  then have "a = i" by simp
  with 0 show ?case by (simp add: upt_conv_Cons)
next
  case (Suc n)
  then have lt: "a < i" and ab: "a < b" by simp_all
  have "\<not> (xs ! a \<le> x \<and> x < xs ! (a + 1))" using Suc.prems(5) lt by auto
  moreover have "find_enclosing_loop [Suc a ..< b] x xs = Inr i"
    using Suc.hyps(1)[of "Suc a"] Suc.hyps(2) Suc.prems lt by auto
  ultimately show ?case using ab by (auto simp: upt_conv_Cons)
qed

lemma no_gap:
  "(\<forall>j. a \<le> j \<and> j < b \<longrightarrow> \<not> (xs ! j \<le> x \<and> x < xs ! (j + 1))) \<Longrightarrow> a \<le> b \<Longrightarrow>
   xs ! a \<le> x \<Longrightarrow> xs ! b \<le> (x::real)"
proof (induction "b - a" arbitrary: b)
  case 0
  then show ?case by simp
next
  case (Suc n)
  then obtain c where b: "b = Suc c" and ac: "a \<le> c" by (cases b) auto
  have "xs ! c \<le> x" using Suc.hyps(1)[of c] Suc.hyps(2) Suc.prems b ac by auto
  moreover have "\<not> (xs ! c \<le> x \<and> x < xs ! (c + 1))" using Suc.prems(1) b ac by auto
  ultimately show ?case using b by auto
qed

lemma find_enclosing_index_Inr:
  "find_enclosing_index x xs = Inr i \<Longrightarrow> i + 1 < length xs \<and> xs ! i \<le> x \<and> x < xs ! (i + 1)"
  unfolding find_enclosing_index_def by (drule find_enclosing_loop_Inr) auto

lemma find_enclosing_index_Inl:
  "find_enclosing_index x xs = Inl e \<Longrightarrow> e = NotEnclosed"
  unfolding find_enclosing_index_def by (drule find_enclosing_loop_Inl) auto

lemma find_enclosing_index_in_range:
  assumes "xs \<noteq> []" "xs ! 0 \<le> x" "x < last xs"
  shows "\<exists>i. find_enclosing_index x xs = Inr i"
proof (cases "find_enclosing_index x xs")
  case (Inl e)
  then have "\<forall>j. 0 \<le> j \<and> j < length xs - 1 \<longrightarrow> \<not> (xs ! j \<le> x \<and> x < xs ! (j + 1))"
    unfolding find_enclosing_index_def by (auto dest!: find_enclosing_loop_Inl)
  from no_gap[OF this] assms have "xs ! (length xs - 1) \<le> x" by simp
  with assms show ?thesis by (simp add: last_conv_nth)
next
  case (Inr i)
  then show ?thesis by blast
qed

lemma find_enclosing_index_out_of_range:
  assumes "sorted_wrt (<) xs" "xs \<noteq> []" "x < xs ! 0 \<or> last xs \<le> x"
  shows "find_enclosing_index x xs = Inl NotEnclosed"
  unfolding find_enclosing_index_def
proof (rule find_enclosing_loop_none, rule ballI)
  fix j assume "j \<in> set [0 ..< length xs - 1]"
  then have j: "j + 1 < length xs" by auto
  have le0: "xs ! 0 \<le> xs ! j" using assms(1) j by (cases "j = 0") (auto simp: sorted_wrt_iff_nth_less less_imp_le)
  have lel: "xs ! (j + 1) \<le> last xs" using assms(1,2) j
    by (cases "j + 1 = length xs - 1") (auto simp: sorted_wrt_iff_nth_less last_conv_nth less_imp_le)
  show "\<not> (xs ! j \<le> x \<and> x < xs ! (j + 1))" using assms(3) le0 lel by auto
qed

lemma find_enclosing_index_at_sample:
  assumes "sorted_wrt (<) xs" "i + 1 < length xs"
  shows "find_enclosing_index (xs ! i) xs = Inr i"
  unfolding find_enclosing_index_def
proof (rule find_enclosing_loop_first)
  show "xs ! i < xs ! (i + 1)" using assms by (simp add: sorted_wrt_iff_nth_less)
  show "\<forall>j. 0 \<le> j \<and> j < i \<longrightarrow> \<not> (xs ! j \<le> xs ! i \<and> xs ! i < xs ! (j + 1))"
  proof (intro allI impI)
    fix j assume j: "0 \<le> j \<and> j < i"
    have "xs ! (j + 1) \<le> xs ! i" using assms j
      by (cases "j + 1 = i") (auto simp: sorted_wrt_iff_nth_less less_imp_le)
    then show "\<not> (xs ! j \<le> xs ! i \<and> xs ! i < xs ! (j + 1))" by auto
  qed
qed (use assms in auto)

lemma interpolate_enclosed:
  assumes "find_enclosing_index x xs = Inr i" "i + 1 < length ys"
  shows "interpolate x xs ys =
    Inr (ys ! i + (ys ! (i + 1) - ys ! i) / (xs ! (i + 1) - xs ! i) * (x - xs ! i))"
  using find_enclosing_index_Inr[OF assms(1)] assms
  by (simp add: interpolate_def getitem_def py_div_def)


lemma interpolate_not_enclosed:
  assumes "find_enclosing_index x xs = Inl e"
  shows "interpolate x xs ys = Inl NotEnclosed"
  using find_enclosing_index_Inl[OF assms] assms
  by (simp add: interpolate_def)

lemma floor_rem_bounds:
  fixes a m :: real
  assumes "0 < m"
  shows "0 \<le> a - m * of_int \<lfloor>a / m\<rfloor>" "a - m * of_int \<lfloor>a / m\<rfloor> < m"
proof -
  have m: "m * (a / m) = a" using assms by simp
  have "of_int \<lfloor>a / m\<rfloor> \<le> a / m" by (rule of_int_floor_le)
  then have "m * of_int \<lfloor>a / m\<rfloor> \<le> m * (a / m)"
    using assms by (intro mult_left_mono) simp_all
  with m show "0 \<le> a - m * of_int \<lfloor>a / m\<rfloor>" by simp
  have "a / m < of_int \<lfloor>a / m\<rfloor> + 1" by linarith
  then have "m * (a / m) < m * (of_int \<lfloor>a / m\<rfloor> + 1)"
    using assms by (intro mult_strict_left_mono) simp_all
  with m show "a - m * of_int \<lfloor>a / m\<rfloor> < m" by (simp add: algebra_simps)
qed

lemma wrap_2pi_NaN: "wrap_2pi NaN = Inr NaN"
  by (simp add: wrap_2pi_def fadd_def fmod_def fmul_def mk_def fsub_def)

lemma wrap_2pi_Num:
  "wrap_2pi (Num v) = Inr (Num ((v + pi) - 2 * pi * of_int \<lfloor>(v + pi) / (2 * pi)\<rfloor> - pi))"
proof -
  have "0 \<le> (v + pi) - 2 * pi * of_int \<lfloor>(v + pi) / (2 * pi)\<rfloor>"
    by (rule floor_rem_bounds) simp
  then show ?thesis
    by (simp add: wrap_2pi_def fadd_def fmod_def fmul_def mk_def fsub_def)
qed

lemma scale_nan_ones_like: "scale NaN (ones_like m) = nan_like m"
  by (simp add: scale_def ones_like_def nan_like_def fmul_def)

lemma wrap_2pi_wrap_to_pi: "wrap_2pi (Num v) = Inr (Num (wrap_to_pi v))"
  by (simp add: wrap_2pi_Num wrap_to_pi_def euclid_mod_def)

lemma wrap_to_pi_bounds: "- pi \<le> wrap_to_pi v" "wrap_to_pi v < pi" "0 \<le> euclid_mod (v + pi) (2 * pi)"
  using floor_rem_bounds[of "2 * pi" "v + pi"] by (simp_all add: wrap_to_pi_def euclid_mod_def)

lemma interpolate_nearest_raw_fail:
  assumes "interpolate_nearest_raw x xs ms = Inl e" "ms \<noteq> []"
  shows "interpolate_nearest x xs ms = Inr (nan_like (ms ! 0))"
  using assms by (simp add: interpolate_nearest_def getitem_def scale_nan_ones_like)

text \<open>
  Claim C3. For a strictly increasing \<open>x_sample\<close> with parallel samples, a query before
  the first sample time, or at or after the last one (a query equal to the last sample time
  included), is enclosed by no interval, and all three interpolators return not-a-number
  without raising: \<open>interpolate_continuous\<close> and \<open>interpolate_angles\<close> the NaN value,
  \<open>interpolate_nearest\<close> an array of the shape of one sample filled with NaN.
\<close>

theorem out_of_range_is_nan:
  assumes "sorted_wrt (<) x_sample" and "x_sample \<noteq> []"
    and "length y_sample = length x_sample" and "length m_sample = length x_sample"
    and "x < x_sample ! 0 \<or> last x_sample \<le> x"
  shows "find_enclosing_index x x_sample = Inl NotEnclosed
    \<and> interpolate_continuous x x_sample y_sample = NaN
    \<and> interpolate_angles x x_sample y_sample = Inr NaN
    \<and> interpolate_nearest x x_sample m_sample = Inr (nan_like (m_sample ! 0))"
proof -
  have f: "find_enclosing_index x x_sample = Inl NotEnclosed"
    using assms(1,2,5) by (rule find_enclosing_index_out_of_range)
  have c: "interpolate_continuous x x_sample y_sample = NaN"
    by (simp add: interpolate_continuous_def interpolate_not_enclosed[OF f])
  have a: "interpolate_angles x x_sample y_sample = Inr NaN"
    by (simp add: interpolate_angles_def c wrap_2pi_NaN)
  have "m_sample \<noteq> []" using assms(2,4) by auto
  moreover have "interpolate_nearest_raw x x_sample m_sample = Inl NotEnclosed"
    by (simp add: interpolate_nearest_raw_def f)
  ultimately have n: "interpolate_nearest x x_sample m_sample = Inr (nan_like (m_sample ! 0))"
    by (intro interpolate_nearest_raw_fail)
  from f c a n show ?thesis by simp
qed

theorem out_of_range_is_nan_witness:
  "sorted_wrt (<) [0, 1, 2 :: real] \<and> [0, 1, 2 :: real] \<noteq> []
   \<and> length [5, 6, 7 :: real] = length [0, 1, 2 :: real]
   \<and> length [[[1, 0], [0, 1]], [[1, 0], [0, 1]], [[1, 0], [0, 1 :: real]]] = length [0, 1, 2 :: real]
   \<and> last [0, 1, 2 :: real] \<le> 2
   \<and> find_enclosing_index 2 [0, 1, 2] = Inl NotEnclosed
   \<and> interpolate_continuous 2 [0, 1, 2] [5, 6, 7] = NaN
   \<and> interpolate_angles 2 [0, 1, 2] [5, 6, 7] = Inr NaN
   \<and> interpolate_nearest 2 [0, 1, 2] [[[1, 0], [0, 1]], [[1, 0], [0, 1]], [[1, 0], [0, 1]]]
       = Inr [[NaN, NaN], [NaN, NaN]]"
  using out_of_range_is_nan [of "[0, 1, 2]" "[5, 6, 7]"
     "[[[1, 0], [0, 1]], [[1, 0], [0, 1]], [[1, 0], [0, 1]]]" 2]
  by (simp add: nan_like_def)

text \<open>
  Claim C4. For a query inside the covered interval of a strictly increasing \<open>x_sample\<close>
  with parallel \<open>y_sample\<close>, \<open>interpolate_angles\<close> returns a number in \<open>[-pi, pi]\<close>: it is
  \<open>((c + pi) mod 2 pi) - pi\<close> for the continuous interpolation \<open>c\<close>, with the remainder that
  is never negative.
\<close>

theorem angles_in_range:
  assumes "sorted_wrt (<) x_sample" and "x_sample \<noteq> []"
    and "length y_sample = length x_sample"
    and "x_sample ! 0 \<le> x" and "x < last x_sample"
  shows "\<exists>c. interpolate_continuous x x_sample y_sample = Num c
    \<and> interpolate_angles x x_sample y_sample = Inr (Num (wrap_to_pi c))
    \<and> 0 \<le> euclid_mod (c + pi) (2 * pi)
    \<and> - pi \<le> wrap_to_pi c \<and> wrap_to_pi c \<le> pi"
proof -
  obtain i where i: "find_enclosing_index x x_sample = Inr i"
    using find_enclosing_index_in_range[OF assms(2,4,5)] by blast
  then have "i + 1 < length y_sample"
    using find_enclosing_index_Inr[OF i] assms(3) by simp
  from interpolate_enclosed[OF i this]
  obtain c where c: "interpolate_continuous x x_sample y_sample = Num c"
    by (simp add: interpolate_continuous_def)
  have "interpolate_angles x x_sample y_sample = Inr (Num (wrap_to_pi c))"
    by (simp add: interpolate_angles_def c wrap_2pi_wrap_to_pi)
  with c wrap_to_pi_bounds[of c] show ?thesis by (intro exI[of _ c]) simp
qed

theorem angles_in_range_witness:
  "sorted_wrt (<) [0, 1 :: real] \<and> [0, 1 :: real] \<noteq> []
   \<and> length [0, 8 :: real] = length [0, 1 :: real]
   \<and> [0, 1 :: real] ! 0 \<le> 1 / 2 \<and> 1 / 2 < last [0, 1 :: real]
   \<and> (\<exists>c. interpolate_continuous (1 / 2) [0, 1] [0, 8] = Num c
        \<and> interpolate_angles (1 / 2) [0, 1] [0, 8] = Inr (Num (wrap_to_pi c))
        \<and> 0 \<le> euclid_mod (c + pi) (2 * pi)
        \<and> - pi \<le> wrap_to_pi c \<and> wrap_to_pi c \<le> pi)"
  using angles_in_range [of "[0, 1]" "[0, 8]" "1 / 2"]
  by simp

text \<open>
  Claim C6. For a strictly increasing \<open>x_sample\<close> with parallel \<open>y_sample\<close> and an index
  \<open>i\<close> below the last index, \<open>interpolate_continuous\<close> at the sample time \<open>x_sample[i]\<close>
  returns exactly \<open>y_sample[i]\<close>.
\<close>

theorem exact_resampling:
  assumes "sorted_wrt (<) x_sample" and "length y_sample = length x_sample"
    and "i < length x_sample - 1"
  shows "interpolate_continuous (x_sample ! i) x_sample y_sample = Num (y_sample ! i)"
proof -
  have i: "i + 1 < length x_sample" using assms(3) by simp
  have f: "find_enclosing_index (x_sample ! i) x_sample = Inr i"
    using assms(1) i by (rule find_enclosing_index_at_sample)
  have "i + 1 < length y_sample" using i assms(2) by simp
  from interpolate_enclosed[OF f this] show ?thesis
    by (simp add: interpolate_continuous_def)
qed

theorem exact_resampling_witness:
  "sorted_wrt (<) [0, 1, 3 :: real] \<and> length [5, 6, 8 :: real] = length [0, 1, 3 :: real]
   \<and> 1 < length [0, 1, 3 :: real] - 1
   \<and> interpolate_continuous 1 [0, 1, 3] [5, 6, 8] = Num 6"
  using exact_resampling [of "[0, 1, 3]" "[5, 6, 8]" 1]
  by simp

text \<open>
  Claim C8. For a strictly increasing \<open>x_sample\<close> with parallel \<open>y_sample\<close> and every
  query, \<open>interpolate_angles\<close> is the wrapping applied to \<open>interpolate_continuous\<close>: both
  take the index of \<open>_find_enclosing_index\<close> and the same linear interpolation between the
  samples \<open>i\<close> and \<open>i + 1\<close>, and the angular one wraps the result and does nothing else.
\<close>

theorem angles_is_wrapped_continuous:
  assumes "sorted_wrt (<) x_sample" and "length y_sample = length x_sample"
  shows "interpolate_angles x x_sample y_sample
           = wrap_2pi (interpolate_continuous x x_sample y_sample)
    \<and> interpolate_continuous x x_sample y_sample
           = (case find_enclosing_index x x_sample of
                Inl e \<Rightarrow> NaN | Inr i \<Rightarrow> Num (linear_at i x x_sample y_sample))
    \<and> interpolate_angles x x_sample y_sample
           = (case find_enclosing_index x x_sample of
                Inl e \<Rightarrow> Inr NaN | Inr i \<Rightarrow> Inr (Num (wrap_to_pi (linear_at i x x_sample y_sample))))"
proof (cases "find_enclosing_index x x_sample")
  case (Inl e)
  then have "interpolate_continuous x x_sample y_sample = NaN"
    by (simp add: interpolate_continuous_def interpolate_not_enclosed)
  with Inl show ?thesis by (simp add: interpolate_angles_def wrap_2pi_NaN)
next
  case (Inr i)
  then have "i + 1 < length y_sample"
    using find_enclosing_index_Inr[OF Inr] assms(2) by simp
  from interpolate_enclosed[OF Inr this]
  have "interpolate_continuous x x_sample y_sample = Num (linear_at i x x_sample y_sample)"
    by (simp add: interpolate_continuous_def linear_at_def)
  with Inr show ?thesis by (simp add: interpolate_angles_def wrap_2pi_wrap_to_pi)
qed

theorem angles_is_wrapped_continuous_witness:
  "sorted_wrt (<) [0, 1, 3 :: real] \<and> length [5, 6, 8 :: real] = length [0, 1, 3 :: real]
   \<and> interpolate_angles 2 [0, 1, 3] [5, 6, 8] = wrap_2pi (interpolate_continuous 2 [0, 1, 3] [5, 6, 8])
   \<and> interpolate_continuous 2 [0, 1, 3] [5, 6, 8] = Num 7
   \<and> interpolate_angles 2 [0, 1, 3] [5, 6, 8] = Inr (Num (wrap_to_pi 7))"
  using angles_is_wrapped_continuous [of "[0, 1, 3]" "[5, 6, 8]" 2]
  by (simp add: find_enclosing_index_def upt_conv_Cons linear_at_def wrap_2pi_wrap_to_pi)




section \<open>Properties of the observation time\<close>



section \<open>Properties of the float operations\<close>

lemma fl_val_Some_iff: "fl_val a = Some x \<longleftrightarrow> a \<noteq> NaN \<and> num_of a = x"
  by (cases a) auto

lemma fl_val_None_iff: "fl_val a = None \<longleftrightarrow> a = NaN"
  by (cases a) auto

lemma fl_val_num_of: "a \<noteq> NaN \<Longrightarrow> fl_val a = Some (num_of a)"
  by (cases a) auto

lemma mk_num [simp]: "mk s r \<noteq> NaN" "num_of (mk s r) = r"
  by (simp_all add: mk_def)

lemma fadd_num [simp]:
  "a \<noteq> NaN \<Longrightarrow> b \<noteq> NaN \<Longrightarrow> fadd a b \<noteq> NaN"
  "a \<noteq> NaN \<Longrightarrow> b \<noteq> NaN \<Longrightarrow> num_of (fadd a b) = num_of a + num_of b"
  by (simp_all add: fadd_def fl_val_num_of)

lemma fadd_NaN [simp]: "fadd NaN b = NaN" "fadd a NaN = NaN"
  by (simp_all add: fadd_def split: option.splits)

lemma fneg_num [simp]:
  "a \<noteq> NaN \<Longrightarrow> fneg a \<noteq> NaN"
  "num_of (fneg a) = - num_of a"
  by (cases a; simp)+

lemma fsub_num [simp]:
  "a \<noteq> NaN \<Longrightarrow> b \<noteq> NaN \<Longrightarrow> fsub a b \<noteq> NaN"
  "a \<noteq> NaN \<Longrightarrow> b \<noteq> NaN \<Longrightarrow> num_of (fsub a b) = num_of a - num_of b"
  by (simp_all add: fsub_def)

lemma fsub_NaN [simp]: "fsub NaN b = NaN" "fsub a NaN = NaN"
  by (simp_all add: fsub_def)

lemma fmul_num [simp]:
  "a \<noteq> NaN \<Longrightarrow> b \<noteq> NaN \<Longrightarrow> fmul a b \<noteq> NaN"
  "a \<noteq> NaN \<Longrightarrow> b \<noteq> NaN \<Longrightarrow> num_of (fmul a b) = num_of a * num_of b"
  by (simp_all add: fmul_def fl_val_num_of)

lemma fmul_NaN [simp]: "fmul NaN b = NaN" "fmul a NaN = NaN"
  by (simp_all add: fmul_def split: option.splits)

lemma fpow2_num [simp]:
  "a \<noteq> NaN \<Longrightarrow> fpow2 a \<noteq> NaN"
  "a \<noteq> NaN \<Longrightarrow> num_of (fpow2 a) = (num_of a)\<^sup>2"
  by (simp_all add: fpow2_def power2_eq_square)

lemma fpow2_NaN [simp]: "fpow2 NaN = NaN"
  by (simp add: fpow2_def)

lemma fsqrt_num:
  "a \<noteq> NaN \<Longrightarrow> 0 \<le> num_of a \<Longrightarrow> fsqrt a \<noteq> NaN"
  "a \<noteq> NaN \<Longrightarrow> 0 \<le> num_of a \<Longrightarrow> num_of (fsqrt a) = sqrt (num_of a)"
  by (cases a; simp)+

lemma fsqrt_negative: "a \<noteq> NaN \<Longrightarrow> num_of a < 0 \<Longrightarrow> fsqrt a = NaN"
  by (cases a) simp_all


lemma fdiv_NaN: "b \<noteq> NaN \<Longrightarrow> num_of b \<noteq> 0 \<Longrightarrow> fdiv NaN b = Inr NaN"
  by (simp add: fdiv_def fl_val_num_of)

lemma fdiv_zero: "b \<noteq> NaN \<Longrightarrow> num_of b = 0 \<Longrightarrow> fdiv a b = Inl ZeroDivisionError"
  by (simp add: fdiv_def fl_val_num_of)


lemma py_min_NaN: "py_min NaN NaN = NaN"
  by (simp add: py_min_def)

lemma vec_val_Some_iff:
  "vec_val (a, b, c) = Some (x, y, z) \<longleftrightarrow>
     a \<noteq> NaN \<and> b \<noteq> NaN \<and> c \<noteq> NaN \<and> num_of a = x \<and> num_of b = y \<and> num_of c = z"
  by (cases a; cases b; cases c) (auto simp: vec_val_def)

section \<open>Properties of the intersection with the earth\<close>

lemma distances_eq:
  assumes "ux \<noteq> NaN" "uy \<noteq> NaN" "uz \<noteq> NaN" "x \<noteq> NaN" "y \<noteq> NaN" "z \<noteq> NaN" "R \<noteq> NaN" "F \<noteq> NaN"
  defines "u \<equiv> (num_of ux, num_of uy, num_of uz)" and "p \<equiv> (num_of x, num_of y, num_of z)"
  defines "a \<equiv> quad_a (num_of F) u" and "b \<equiv> quad_b (num_of F) u p"
    and "D \<equiv> discriminant (num_of F) (num_of R) u p"
  shows "\<exists>A B T. A \<noteq> NaN \<and> num_of A = a \<and> B \<noteq> NaN \<and> num_of B = b
      \<and> (0 \<le> D \<longrightarrow> T \<noteq> NaN \<and> num_of T = sqrt D) \<and> (D < 0 \<longrightarrow> T = NaN)
      \<and> get_distances_to_intersections (ux, uy, uz) (x, y, z) (R, F)
        = ebind (fdiv (fadd (fneg B) T) A) (\<lambda>dist_1.
          ebind (fdiv (fsub (fneg B) T) A) (\<lambda>dist_2. Inr (dist_1, dist_2)))"
  using assms(1-8) unfolding get_distances_to_intersections_def Let_def a_def b_def D_def u_def p_def
  apply (simp only: prod.case)
  apply (intro exI conjI)
        prefer 7
        apply (rule refl)
       apply (simp_all add: quad_a_def quad_b_def quad_c_def discriminant_def fsqrt_num fsqrt_negative)
  done










lemma neg_discriminant_quad_a: "discriminant f r u p < 0 \<Longrightarrow> quad_a f u \<noteq> 0"
  by (auto simp: discriminant_def)

lemma arctan2_NaN [simp]: "arctan2 NaN x = NaN" "arctan2 y NaN = NaN"
  by (simp_all add: arctan2_def split: option.splits)

lemma rad2deg_NaN [simp]: "rad2deg NaN = NaN"
  by (simp add: rad2deg_def)

lemma transform_NaN: "transform_earth_fixed_to_geodetic_coords (NaN, NaN, NaN) F = (NaN, NaN)"
  by (simp add: transform_earth_fixed_to_geodetic_coords_def)

lemma missed_earth_components:
  assumes "ux \<noteq> NaN" "uy \<noteq> NaN" "uz \<noteq> NaN" "x \<noteq> NaN" "y \<noteq> NaN" "z \<noteq> NaN" "R \<noteq> NaN" "F \<noteq> NaN"
    and "discriminant (num_of F) (num_of R) (num_of ux, num_of uy, num_of uz)
           (num_of x, num_of y, num_of z) < 0"
  shows "get_distances_to_intersections (ux, uy, uz) (x, y, z) (R, F) = Inr (NaN, NaN)"
proof -
  from distances_eq[OF assms(1-8)] assms(9) neg_discriminant_quad_a[OF assms(9)]
  obtain A B where "A \<noteq> NaN" "num_of A \<noteq> 0"
    and "get_distances_to_intersections (ux, uy, uz) (x, y, z) (R, F)
        = ebind (fdiv (fadd (fneg B) NaN) A) (\<lambda>dist_1.
          ebind (fdiv (fsub (fneg B) NaN) A) (\<lambda>dist_2. Inr (dist_1, dist_2)))"
    by auto
  then show ?thesis by (simp add: fdiv_NaN)
qed

text \<open>
  Claim C5. For a view vector, a satellite position and ellipsoid parameters whose
  discriminant \<open>b\<^sup>2 - a c\<close> is negative, no exception is raised: the distance is NaN, the
  intersection point is NaN in every coordinate, and longitude and latitude are both NaN.
\<close>

theorem missed_earth_is_nan:
  assumes "vec_val view_vector = Some u" and "vec_val sat_pos = Some p"
    and "fl_val equatorial_radius = Some r" and "fl_val flattening = Some f"
    and "discriminant f r u p < 0"
  shows "get_distance_to_intersection view_vector sat_pos (equatorial_radius, flattening) = Inr NaN
    \<and> intersect_with_earth view_vector sat_pos (equatorial_radius, flattening) = Inr (NaN, NaN, NaN)
    \<and> get_lon_lat_of_view_vector view_vector sat_pos (equatorial_radius, flattening) = Inr (NaN, NaN)"
proof -
  obtain ux uy uz where vv: "view_vector = (ux, uy, uz)" by (cases view_vector) auto
  obtain x y z where sp: "sat_pos = (x, y, z)" by (cases sat_pos) auto
  obtain u1 u2 u3 where u: "u = (u1, u2, u3)" by (cases u) auto
  obtain p1 p2 p3 where p: "p = (p1, p2, p3)" by (cases p) auto
  have n: "ux \<noteq> NaN" "uy \<noteq> NaN" "uz \<noteq> NaN" "x \<noteq> NaN" "y \<noteq> NaN" "z \<noteq> NaN"
    "equatorial_radius \<noteq> NaN" "flattening \<noteq> NaN"
    and v: "num_of ux = u1" "num_of uy = u2" "num_of uz = u3"
      "num_of x = p1" "num_of y = p2" "num_of z = p3"
      "num_of equatorial_radius = r" "num_of flattening = f"
    using assms(1-4) unfolding vv sp u p vec_val_Some_iff fl_val_Some_iff by simp_all
  have "get_distances_to_intersections (ux, uy, uz) (x, y, z) (equatorial_radius, flattening)
          = Inr (NaN, NaN)"
    using n assms(5) unfolding u p v[symmetric] by (rule missed_earth_components)
  then have d: "get_distance_to_intersection view_vector sat_pos (equatorial_radius, flattening)
          = Inr NaN"
    by (simp add: get_distance_to_intersection_def vv sp py_min_NaN)
  then have i: "intersect_with_earth view_vector sat_pos (equatorial_radius, flattening)
          = Inr (NaN, NaN, NaN)"
    by (simp add: intersect_with_earth_def vv sp scalar_times_def vec_plus_def)
  then have "get_lon_lat_of_view_vector view_vector sat_pos (equatorial_radius, flattening)
          = Inr (NaN, NaN)"
    by (simp add: get_lon_lat_of_view_vector_def transform_NaN)
  with d i show ?thesis by simp
qed

theorem missed_earth_is_nan_witness:
  "vec_val (Num 1, Num 0, Num 0) = Some (1, 0, 0)
   \<and> vec_val (Num 0, Num 0, Num 2) = Some (0, 0, 2)
   \<and> fl_val (Num 1) = Some 1 \<and> fl_val (Num 0) = Some 0
   \<and> discriminant 0 1 (1, 0, 0) (0, 0, 2) < 0
   \<and> get_distance_to_intersection (Num 1, Num 0, Num 0) (Num 0, Num 0, Num 2) (Num 1, Num 0) = Inr NaN
   \<and> intersect_with_earth (Num 1, Num 0, Num 0) (Num 0, Num 0, Num 2) (Num 1, Num 0) = Inr (NaN, NaN, NaN)
   \<and> get_lon_lat_of_view_vector (Num 1, Num 0, Num 0) (Num 0, Num 0, Num 2) (Num 1, Num 0) = Inr (NaN, NaN)"
  using missed_earth_is_nan [of "(Num 1, Num 0, Num 0)" "(1, 0, 0)" "(Num 0, Num 0, Num 2)" "(0, 0, 2)"
      "Num 1" 1 "Num 0" 0]
  by (simp add: vec_val_def discriminant_def quad_a_def quad_b_def quad_c_def)

section \<open>Properties of the geodetic coordinates\<close>

text \<open>The real two-argument arctangent is the polar angle of \<open>(x, y)\<close>, in \<open>(-pi, pi]\<close>.\<close>

lemma polar_pos:
  fixes x y :: real
  assumes "0 < x"
  shows "sqrt (x\<^sup>2 + y\<^sup>2) * cos (arctan (y / x)) = x"
    and "sqrt (x\<^sup>2 + y\<^sup>2) * sin (arctan (y / x)) = y"
proof -
  have "1 + (y / x)\<^sup>2 = (x\<^sup>2 + y\<^sup>2) / x\<^sup>2"
    using assms by (simp add: field_simps power2_eq_square)
  then have s: "sqrt (1 + (y / x)\<^sup>2) = sqrt (x\<^sup>2 + y\<^sup>2) / x"
    using assms by (simp add: real_sqrt_divide)
  have p: "0 < sqrt (x\<^sup>2 + y\<^sup>2)"
    using assms by (simp add: sum_power2_gt_zero_iff)
  show "sqrt (x\<^sup>2 + y\<^sup>2) * cos (arctan (y / x)) = x"
    using p assms by (simp add: cos_arctan s)
  show "sqrt (x\<^sup>2 + y\<^sup>2) * sin (arctan (y / x)) = y"
    using p assms by (simp add: sin_arctan s)
qed

lemma polar_neg:
  fixes x y :: real
  assumes "x < 0"
  shows "sqrt (x\<^sup>2 + y\<^sup>2) * cos (arctan (y / x)) = - x"
    and "sqrt (x\<^sup>2 + y\<^sup>2) * sin (arctan (y / x)) = - y"
  using polar_pos[of "- x" "- y"] assms by simp_all

lemma atan2_polar:
  "sqrt (x\<^sup>2 + y\<^sup>2) * cos (atan2 y x) = x"
  "sqrt (x\<^sup>2 + y\<^sup>2) * sin (atan2 y x) = y"
  using polar_pos[of x y] polar_neg[of x y]
  by (auto simp: atan2_def not_less cos_add sin_add cos_diff sin_diff)

lemma atan2_range: "- pi < atan2 y x" "atan2 y x \<le> pi"
proof -
  have b: "- (pi / 2) < arctan (y / x)" "arctan (y / x) < pi / 2"
    by (rule arctan_lbound, rule arctan_ubound)
  have n: "0 \<le> y \<Longrightarrow> x < 0 \<Longrightarrow> arctan (y / x) \<le> 0"
    by (simp add: arctan_le_zero_iff divide_nonneg_neg)
  have q: "y < 0 \<Longrightarrow> x < 0 \<Longrightarrow> 0 < arctan (y / x)"
    by (simp add: zero_less_arctan_iff divide_neg_neg)
  show "- pi < atan2 y x" using b n q pi_gt_zero by (auto simp: atan2_def)
  show "atan2 y x \<le> pi" using b n q pi_gt_zero by (auto simp: atan2_def)
qed

lemma arctan2_Num: "arctan2 (Num y) (Num x) = Num (atan2 y x)"
  by (auto simp: arctan2_def atan2_def)

lemma rad2deg_Num: "rad2deg (Num v) = Num (degrees v)"
  by (auto simp: rad2deg_def degrees_def fmul_def mk_def)

lemma fpow2_eq: "a \<noteq> NaN \<Longrightarrow> fpow2 a = Num ((num_of a)\<^sup>2)"
  by (cases a) (auto simp: fpow2_def fmul_def mk_def power2_eq_square)

lemma fsub_one_eq: "f \<noteq> NaN \<Longrightarrow> fsub (Num 1) f = Num (1 - num_of f)"
  by (cases f) (auto simp: fsub_def fadd_def mk_def)

lemma fadd_squares_eq: "fadd (Num (a\<^sup>2)) (Num (b\<^sup>2)) = Num (a\<^sup>2 + b\<^sup>2)"
  by (auto simp: fadd_def mk_def)

lemma fmul_nonneg_eq: "0 \<le> a \<Longrightarrow> 0 \<le> b \<Longrightarrow> fmul (Num a) (Num b) = Num (a * b)"
  by (auto simp: fmul_def mk_def)

lemma latitude_argument:
  assumes "x \<noteq> NaN" "y \<noteq> NaN" "f \<noteq> NaN"
  shows "fmul (fpow2 (fsub (Num 1) f)) (fsqrt (fadd (fpow2 x) (fpow2 y)))
     = Num ((1 - num_of f)\<^sup>2 * sqrt ((num_of x)\<^sup>2 + (num_of y)\<^sup>2))"
proof -
  have "\<not> (num_of x)\<^sup>2 + (num_of y)\<^sup>2 < 0" by (simp add: not_less)
  then show ?thesis
    using assms by (simp add: fpow2_eq fsub_one_eq fadd_squares_eq fmul_nonneg_eq)
qed

text \<open>
  Claim C7. For an earth-fixed point (x, y, z) and a flattening \<open>f\<close>, the conversion
  returns the longitude \<open>atan2 (y, x)\<close> and the latitude
  \<open>atan2 (z, (1 - f)\<^sup>2 sqrt (x\<^sup>2 + y\<^sup>2))\<close>, both converted from radians to degrees: as floats
  for every input, and as the real two-argument arctangent for every input of real numbers.
\<close>

theorem geodetic_formula:
  "transform_earth_fixed_to_geodetic_coords (X, Y, Z) F
     = (rad2deg (arctan2 Y X),
        rad2deg (arctan2 Z (fmul (fpow2 (fsub (Num 1) F)) (fsqrt (fadd (fpow2 X) (fpow2 Y))))))
   \<and> transform_earth_fixed_to_geodetic_coords (Num x, Num y, Num z) (Num f)
     = (Num (degrees (atan2 y x)), Num (degrees (atan2 z ((1 - f)\<^sup>2 * sqrt (x\<^sup>2 + y\<^sup>2)))))"
proof
  show "transform_earth_fixed_to_geodetic_coords (X, Y, Z) F
     = (rad2deg (arctan2 Y X),
        rad2deg (arctan2 Z (fmul (fpow2 (fsub (Num 1) F)) (fsqrt (fadd (fpow2 X) (fpow2 Y))))))"
    by (simp add: transform_earth_fixed_to_geodetic_coords_def)
  have "fmul (fpow2 (fsub (Num 1) (Num f))) (fsqrt (fadd (fpow2 (Num x)) (fpow2 (Num y))))
     = Num ((1 - f)\<^sup>2 * sqrt (x\<^sup>2 + y\<^sup>2))"
    using latitude_argument[of "Num x" "Num y" "Num f"] by simp
  then show "transform_earth_fixed_to_geodetic_coords (Num x, Num y, Num z) (Num f)
     = (Num (degrees (atan2 y x)), Num (degrees (atan2 z ((1 - f)\<^sup>2 * sqrt (x\<^sup>2 + y\<^sup>2)))))"
    by (simp add: transform_earth_fixed_to_geodetic_coords_def arctan2_Num rad2deg_Num)
qed










end
